theory Spec2Isabelle
  imports Complex_Main
begin

section \<open>The broadcast scheduler of xabar.py\<close>

text \<open>
  A shallow embedding of the background worker \<^verbatim>\<open>ads_worker\<close> of \<^verbatim>\<open>src/xabar.py\<close> and of
  the helpers it calls (\<^verbatim>\<open>has_active_sub\<close>, \<^verbatim>\<open>get_user_groups\<close>,
  \<^verbatim>\<open>get_first_session_string\<close>, \<^verbatim>\<open>send_ad_with_session\<close>), together with
  \<^verbatim>\<open>ensure_user\<close>. The SQLite tables are lists of rows in table order, the clock, the
  network and the failures of the store are part of an explicit world that every operation
  takes and returns, and every effect the worker has on the outside (a send, a sleep, a log
  line) is appended to a trace.
\<close>

subsection \<open>Time and the module's environment\<close>

text \<open>
  A naive \<^verbatim>\<open>datetime\<close> is a point on the time line, in seconds; a \<^verbatim>\<open>timedelta\<close> is a
  number of seconds. Both are rationals, so that half a second is exact.
\<close>

type_synonym datetime = rat

text \<open>
  The module's constants read from the process environment, and the two functions of Python's
  \<^verbatim>\<open>datetime\<close> that turn a stored text into a time and back. \<open>fromisoformat\<close> is
  \<open>Some d\<close> when \<^verbatim>\<open>datetime.fromisoformat\<close> returns the naive datetime \<open>d\<close>, and \<open>None\<close>
  when it raises (or returns an offset-aware datetime, whose comparison with
  \<^verbatim>\<open>datetime.utcnow()\<close> raises): the worker handles both by the same \<^verbatim>\<open>except Exception\<close>.
\<close>

record env =
  TAGLINE :: string
  ADMIN_ID :: int
  fromisoformat :: "string \<Rightarrow> datetime option"
  isoformat :: "datetime \<Rightarrow> string"

text \<open>
  \<^verbatim>\<open>timedelta(seconds=n)\<close> raises \<^verbatim>\<open>OverflowError\<close> outside
  \<^verbatim>\<open>timedelta.min .. timedelta.max\<close> (999999999 days either way); \<open>None\<close> is that raise.
\<close>

definition timedelta_seconds :: "int \<Rightarrow> rat option" where
  "timedelta_seconds n =
     (if - 86399999913600 \<le> n \<and> n \<le> 86399999999999 then Some (of_int n) else None)"

text \<open>Python's truth value of an optional text: \<^verbatim>\<open>None\<close> and the empty text are false.\<close>

definition truthy :: "string option \<Rightarrow> bool" where
  "truthy x = (case x of None \<Rightarrow> False | Some s \<Rightarrow> s \<noteq> [])"

text \<open>What an f-string prints for an optional text: \<^verbatim>\<open>None\<close> prints as the word None.\<close>

definition py_str :: "string option \<Rightarrow> string" where
  "py_str x = (case x of None \<Rightarrow> ''None'' | Some s \<Rightarrow> s)"

subsection \<open>The store\<close>

text \<open>
  One record per table of \<^verbatim>\<open>init_db\<close>, with the columns the worker and \<^verbatim>\<open>ensure_user\<close>
  read or write (the \<^verbatim>\<open>created_at\<close> columns and the payments table are read by neither).
  A column that the interactive layer can leave \<^verbatim>\<open>NULL\<close> and that the worker branches on is
  an option. Flags are SQLite integers, compared with 1 as the queries do.
\<close>

record user_row =
  u_user_id :: int
  u_is_admin :: int
  u_paid_until :: "string option"
  u_balance :: int

record account_row =
  a_id :: int
  a_user_id :: int
  a_phone :: string
  a_session_string :: "string option"
  a_is_active :: int

record group_row =
  g_id :: int
  g_user_id :: int
  g_group_id :: string
  g_group_name :: string
  g_is_active :: int

record message_row =
  m_id :: int
  m_user_id :: int
  m_text :: "string option"
  m_photo_path :: "string option"
  m_interval_sec :: int
  m_last_sent :: "string option"
  m_active :: int
  m_sent_count :: int

subsection \<open>The world outside the worker\<close>

text \<open>What a call of \<^verbatim>\<open>send_ad_with_session\<close> ends with: it returns, it raises
  \<^verbatim>\<open>FloodWaitError\<close> with its \<^verbatim>\<open>seconds\<close>, or it raises anything else.\<close>

datatype send_result = Delivered | FloodWaitError int | SendError

text \<open>An exception that leaves an \<^verbatim>\<open>async with aiosqlite.connect(...)\<close> block.\<close>

datatype exn = DatabaseError

text \<open>
  The observable effects, in the order they happen: the request handed to the Telegram client
  (session, target, and the text, or the file and its caption), \<^verbatim>\<open>asyncio.sleep\<close> with its
  argument in seconds, and the log lines.
\<close>

datatype event =
    Send_message string string "string option"
  | Send_file string string string "string option"
  | Sleep rat
  | Log_info_started
  | Log_warning_FloodWait int
  | Log_error_Send string
  | Log_error_Worker_loop

text \<open>
  \<open>db_faults\<close> scripts the store: one flag per \<^verbatim>\<open>aiosqlite.connect\<close> block still to come,
  \<open>True\<close> when that block raises; no flag left means the block succeeds. \<open>net_replies\<close>
  scripts the network the same way, one reply per call of \<^verbatim>\<open>send_ad_with_session\<close>, and a
  call with no reply left is delivered. The clock is what \<^verbatim>\<open>datetime.utcnow()\<close> returns; it
  moves only while the worker sleeps.
\<close>

record world =
  users :: "user_row list"
  accounts :: "account_row list"
  groups :: "group_row list"
  messages :: "message_row list"
  clock :: datetime
  db_faults :: "bool list"
  net_replies :: "send_result list"
  trace :: "event list"

definition utcnow :: "world \<Rightarrow> datetime" where
  "utcnow w = clock w"

definition log_event :: "world \<Rightarrow> event \<Rightarrow> world" where
  "log_event w e = w\<lparr>trace := trace w @ [e]\<rparr>"

text \<open>\<^verbatim>\<open>asyncio.sleep(d)\<close>: a delay that is not positive returns at once.\<close>

definition sleep :: "world \<Rightarrow> rat \<Rightarrow> world" where
  "sleep w d = w\<lparr>clock := clock w + max 0 d, trace := trace w @ [Sleep d]\<rparr>"

text \<open>Entering a connection block: whether it raises, and the world with that flag used up.\<close>

definition db_fails :: "world \<Rightarrow> bool" where
  "db_fails w = (case db_faults w of [] \<Rightarrow> False | f # _ \<Rightarrow> f)"

definition db_next :: "world \<Rightarrow> world" where
  "db_next w = w\<lparr>db_faults := tl (db_faults w)\<rparr>"

subsection \<open>Helpers\<close>

text \<open>
  \<^verbatim>\<open>
  async def ensure_user(user_id):
      cur = await db.execute("SELECT 1 FROM users WHERE user_id=?", (user_id,))
      row = await cur.fetchone()
      if not row:
          is_admin = 1 if user_id == ADMIN_ID else 0
          await db.execute("INSERT INTO users(user_id, is_admin, paid_until, balance) VALUES(?,?,?,?)",
                           (user_id, is_admin, datetime.utcnow().isoformat(), 0))
  \<close>
\<close>

definition ensure_user :: "env \<Rightarrow> world \<Rightarrow> int \<Rightarrow> (exn + unit) \<times> world" where
  "ensure_user E w user_id =
     (if db_fails w then (Inl DatabaseError, db_next w)
      else (case find (\<lambda>u. u_user_id u = user_id) (users w) of
              Some row \<Rightarrow> (Inr (), db_next w)
            | None \<Rightarrow>
                (Inr (),
                 (db_next w)\<lparr>users := users w @
                    [\<lparr>u_user_id = user_id,
                      u_is_admin = (if user_id = ADMIN_ID E then 1 else 0),
                      u_paid_until = Some (isoformat E (utcnow w)),
                      u_balance = 0\<rparr>]\<rparr>)))"

text \<open>
  \<^verbatim>\<open>
  async def has_active_sub(user_id):
      cur = await db.execute("SELECT paid_until FROM users WHERE user_id=?", (user_id,))
      row = await cur.fetchone()
      if not row or not row[0]:
          return False
      try:
          return datetime.fromisoformat(row[0]) > datetime.utcnow()
      except Exception:
          return False
  \<close>
  \<open>sub_active\<close> is the body inside the connection block.
\<close>

definition sub_active :: "env \<Rightarrow> world \<Rightarrow> int \<Rightarrow> bool" where
  "sub_active E w user_id =
     (case find (\<lambda>u. u_user_id u = user_id) (users w) of
        None \<Rightarrow> False
      | Some row \<Rightarrow>
          (case u_paid_until row of
             None \<Rightarrow> False
           | Some s \<Rightarrow>
               if s = [] then False
               else (case fromisoformat E s of
                       None \<Rightarrow> False
                     | Some d \<Rightarrow> d > utcnow w)))"

definition has_active_sub :: "env \<Rightarrow> world \<Rightarrow> int \<Rightarrow> (exn + bool) \<times> world" where
  "has_active_sub E w user_id =
     (if db_fails w then (Inl DatabaseError, db_next w)
      else (Inr (sub_active E w user_id), db_next w))"

text \<open>
  \<^verbatim>\<open>SELECT session_string FROM accounts WHERE user_id=? AND is_active=1 LIMIT 1\<close>, then
  \<^verbatim>\<open>return row[0] if row else None\<close>.
\<close>

definition first_session_string :: "world \<Rightarrow> int \<Rightarrow> string option" where
  "first_session_string w user_id =
     (case find (\<lambda>a. a_user_id a = user_id \<and> a_is_active a = 1) (accounts w) of
        None \<Rightarrow> None
      | Some row \<Rightarrow> a_session_string row)"

definition get_first_session_string :: "world \<Rightarrow> int \<Rightarrow> (exn + string option) \<times> world" where
  "get_first_session_string w user_id =
     (if db_fails w then (Inl DatabaseError, db_next w)
      else (Inr (first_session_string w user_id), db_next w))"

text \<open>
  \<^verbatim>\<open>SELECT id, group_id, group_name FROM groups WHERE user_id=? AND is_active=1\<close>.
\<close>

definition user_groups :: "world \<Rightarrow> int \<Rightarrow> (int \<times> string \<times> string) list" where
  "user_groups w user_id =
     map (\<lambda>g. (g_id g, g_group_id g, g_group_name g))
       (filter (\<lambda>g. g_user_id g = user_id \<and> g_is_active g = 1) (groups w))"

definition get_user_groups ::
  "world \<Rightarrow> int \<Rightarrow> (exn + (int \<times> string \<times> string) list) \<times> world" where
  "get_user_groups w user_id =
     (if db_fails w then (Inl DatabaseError, db_next w)
      else (Inr (user_groups w user_id), db_next w))"

subsection \<open>The worker\<close>

text \<open>
  \<^verbatim>\<open>
  async def send_ad_with_session(session, target, text, photo):
      client = TelegramClient(StringSession(session), API_ID, API_HASH)
      await client.start()
      try:
          if photo:
              await client.send_file(target, file=photo, caption=text)
          else:
              await client.send_message(target, text)
      finally:
          await client.disconnect()
  \<close>
  The request is recorded in the trace and the next scripted reply says how the call ends.
\<close>

definition client_request :: "string \<Rightarrow> string \<Rightarrow> string option \<Rightarrow> string option \<Rightarrow> event" where
  "client_request session target text photo =
     (case photo of
        None \<Rightarrow> Send_message session target text
      | Some p \<Rightarrow>
          if p \<noteq> [] then Send_file session target p text
          else Send_message session target text)"

definition send_ad_with_session ::
  "world \<Rightarrow> string \<Rightarrow> string \<Rightarrow> string option \<Rightarrow> string option \<Rightarrow> send_result \<times> world" where
  "send_ad_with_session w session target text photo =
     (let reply = (case net_replies w of [] \<Rightarrow> Delivered | r # _ \<Rightarrow> r)
      in (reply,
          w\<lparr>net_replies := tl (net_replies w),
            trace := trace w @ [client_request session target text photo]\<rparr>))"

text \<open>
  The time check of the loop body (\<open>True\<close>: the job goes on, \<open>False\<close>: \<^verbatim>\<open>continue\<close>):
  \<^verbatim>\<open>
  if last_sent:
      try:
          last_dt = datetime.fromisoformat(last_sent)
          if datetime.utcnow() - last_dt < timedelta(seconds=interval):
              continue
      except Exception:
          pass
  \<close>
\<close>

definition is_due :: "env \<Rightarrow> datetime \<Rightarrow> string option \<Rightarrow> int \<Rightarrow> bool" where
  "is_due E now last_sent interval =
     (case last_sent of
        None \<Rightarrow> True
      | Some s \<Rightarrow>
          if s = [] then True
          else (case fromisoformat E s of
                  None \<Rightarrow> True
                | Some last_dt \<Rightarrow>
                    (case timedelta_seconds interval of
                       None \<Rightarrow> True
                     | Some td \<Rightarrow> \<not> (now - last_dt < td))))"

text \<open>\<^verbatim>\<open>full_text = f"{text}\n\n{TAGLINE}" if TAGLINE else text\<close>\<close>

definition full_text :: "env \<Rightarrow> string option \<Rightarrow> string option" where
  "full_text E text =
     (if TAGLINE E \<noteq> [] then Some (py_str text @ [CHR 0x0A, CHR 0x0A] @ TAGLINE E) else text)"

text \<open>
  One turn of the loop over the groups:
  \<^verbatim>\<open>
  try:
      await send_ad_with_session(session, group_ref, full_text, photo)
      await asyncio.sleep(0.5)
  except FloodWaitError as e:
      logger.warning(f"FloodWait: {e}")
      await asyncio.sleep(e.seconds)
  except Exception as e:
      logger.error(f"Send error to {group_ref}: {e}")
  \<close>
\<close>

definition send_to_group ::
  "world \<Rightarrow> string \<Rightarrow> string option \<Rightarrow> string option \<Rightarrow> int \<times> string \<times> string \<Rightarrow> world" where
  "send_to_group w session text photo g =
     (case g of (_, group_ref, _) \<Rightarrow>
        (case send_ad_with_session w session group_ref text photo of
           (Delivered, w') \<Rightarrow> sleep w' (1 / 2)
         | (FloodWaitError seconds, w') \<Rightarrow>
             sleep (log_event w' (Log_warning_FloodWait seconds)) (of_int seconds)
         | (SendError, w') \<Rightarrow> log_event w' (Log_error_Send group_ref)))"

text \<open>\<^verbatim>\<open>for _, group_ref, _ in groups: ...\<close>\<close>

fun fan_out ::
  "world \<Rightarrow> string \<Rightarrow> string option \<Rightarrow> string option \<Rightarrow> (int \<times> string \<times> string) list \<Rightarrow> world"
  where
  "fan_out w session text photo [] = w"
| "fan_out w session text photo (g # gs) =
     fan_out (send_to_group w session text photo g) session text photo gs"

text \<open>
  \<^verbatim>\<open>UPDATE messages SET last_sent=?, sent_count=sent_count+1 WHERE id=?\<close> with
  \<^verbatim>\<open>(datetime.utcnow().isoformat(), msg_id)\<close>, in its own connection block.
\<close>

definition mark_sent :: "string \<Rightarrow> int \<Rightarrow> message_row \<Rightarrow> message_row" where
  "mark_sent stamp msg_id m =
     (if m_id m = msg_id then m\<lparr>m_last_sent := Some stamp, m_sent_count := m_sent_count m + 1\<rparr>
      else m)"

definition update_last_sent :: "env \<Rightarrow> world \<Rightarrow> int \<Rightarrow> (exn + unit) \<times> world" where
  "update_last_sent E w msg_id =
     (if db_fails w then (Inl DatabaseError, db_next w)
      else (Inr (),
            (db_next w)\<lparr>messages := map (mark_sent (isoformat E (utcnow w)) msg_id) (messages w)\<rparr>))"

text \<open>The row of the worker's query, as Python unpacks it:
  \<^verbatim>\<open>msg_id, user_id, text, photo, interval, last_sent\<close>.\<close>

type_synonym ad = "int \<times> int \<times> string option \<times> string option \<times> int \<times> string option"

text \<open>
  The body of \<^verbatim>\<open>for msg_id, user_id, text, photo, interval, last_sent in ads\<close>.
  \<open>Inr ()\<close> is the end of the body or a \<^verbatim>\<open>continue\<close>; \<open>Inl e\<close> is an exception that leaves
  the body (the store is the only source: the loop over the groups catches every exception
  of a send).
\<close>

definition process_ad :: "env \<Rightarrow> world \<Rightarrow> ad \<Rightarrow> (exn + unit) \<times> world" where
  "process_ad E w ad =
     (case ad of (msg_id, user_id, text, photo, interval, last_sent) \<Rightarrow>
        (case has_active_sub E w user_id of
           (Inl e, w1) \<Rightarrow> (Inl e, w1)
         | (Inr sub, w1) \<Rightarrow>
             if \<not> sub then (Inr (), w1)
             else if \<not> is_due E (utcnow w1) last_sent interval then (Inr (), w1)
             else (case get_user_groups w1 user_id of
                     (Inl e, w2) \<Rightarrow> (Inl e, w2)
                   | (Inr grps, w2) \<Rightarrow>
                       if grps = [] then (Inr (), w2)
                       else (case get_first_session_string w2 user_id of
                               (Inl e, w3) \<Rightarrow> (Inl e, w3)
                             | (Inr session, w3) \<Rightarrow>
                                 (case session of
                                    None \<Rightarrow> (Inr (), w3)
                                  | Some s \<Rightarrow>
                                      if s = [] then (Inr (), w3)
                                      else update_last_sent E
                                             (fan_out w3 s (full_text E text) photo grps)
                                             msg_id)))))"

text \<open>The loop over the fetched rows; an exception of one body ends the loop.\<close>

fun for_ads :: "env \<Rightarrow> world \<Rightarrow> ad list \<Rightarrow> (exn + unit) \<times> world" where
  "for_ads E w [] = (Inr (), w)"
| "for_ads E w (ad # ads) =
     (case process_ad E w ad of
        (Inl e, w') \<Rightarrow> (Inl e, w')
      | (Inr _, w') \<Rightarrow> for_ads E w' ads)"

text \<open>
  \<^verbatim>\<open>SELECT id, user_id, text, photo_path, interval_sec, last_sent FROM messages WHERE active=1\<close>
\<close>

definition active_ads :: "world \<Rightarrow> ad list" where
  "active_ads w =
     map (\<lambda>m. (m_id m, m_user_id m, m_text m, m_photo_path m, m_interval_sec m, m_last_sent m))
       (filter (\<lambda>m. m_active m = 1) (messages w))"

definition select_active_ads :: "world \<Rightarrow> (exn + ad list) \<times> world" where
  "select_active_ads w =
     (if db_fails w then (Inl DatabaseError, db_next w)
      else (Inr (active_ads w), db_next w))"

text \<open>
  One turn of \<^verbatim>\<open>while True\<close>: the \<^verbatim>\<open>try\<close> around the query and the loop over the rows,
  its \<^verbatim>\<open>except Exception\<close> that logs \<^verbatim>\<open>Worker loop error\<close>, and
  \<^verbatim>\<open>await asyncio.sleep(8)\<close>.
\<close>

definition ads_worker_tick :: "env \<Rightarrow> world \<Rightarrow> world" where
  "ads_worker_tick E w =
     sleep
       (case select_active_ads w of
          (Inl e, w1) \<Rightarrow> log_event w1 Log_error_Worker_loop
        | (Inr ads, w1) \<Rightarrow>
            (case for_ads E w1 ads of
               (Inl e, w2) \<Rightarrow> log_event w2 Log_error_Worker_loop
             | (Inr _, w2) \<Rightarrow> w2))
       8"

text \<open>
  \<^verbatim>\<open>ads_worker\<close> logs its start and loops forever; it never returns, so the model gives the
  world after the first \<open>n\<close> turns of the loop.
\<close>

fun ads_worker_ticks :: "env \<Rightarrow> nat \<Rightarrow> world \<Rightarrow> world" where
  "ads_worker_ticks E 0 w = w"
| "ads_worker_ticks E (Suc n) w = ads_worker_ticks E n (ads_worker_tick E w)"

definition ads_worker :: "env \<Rightarrow> nat \<Rightarrow> world \<Rightarrow> world" where
  "ads_worker E n w = ads_worker_ticks E n (log_event w Log_info_started)"

subsection \<open>Vocabulary of the properties\<close>

text \<open>The requests among the events of a trace, and what a request carries.\<close>

fun is_request :: "event \<Rightarrow> bool" where
  "is_request (Send_message session target text) = True"
| "is_request (Send_file session target file caption) = True"
| "is_request e = False"

definition requests :: "event list \<Rightarrow> event list" where
  "requests es = filter is_request es"

fun request_target :: "event \<Rightarrow> string" where
  "request_target (Send_message session target text) = target"
| "request_target (Send_file session target file caption) = target"
| "request_target e = []"

fun request_text :: "event \<Rightarrow> string option" where
  "request_text (Send_message session target text) = text"
| "request_text (Send_file session target file caption) = caption"
| "request_text e = None"

text \<open>The events that happened between an earlier world and a later one.\<close>

definition events_since :: "world \<Rightarrow> world \<Rightarrow> event list" where
  "events_since w w' = drop (length (trace w)) (trace w')"

text \<open>The stored job with a given id (\<^verbatim>\<open>id\<close> is the primary key of \<^verbatim>\<open>messages\<close>).\<close>

definition row_of :: "world \<Rightarrow> int \<Rightarrow> message_row option" where
  "row_of w msg_id = find (\<lambda>m. m_id m = msg_id) (messages w)"

text \<open>
  The columns of a job that \<^verbatim>\<open>ads_worker\<close> has no statement for: everything but
  \<^verbatim>\<open>last_sent\<close> and \<^verbatim>\<open>sent_count\<close>.
\<close>

definition job_columns ::
  "message_row \<Rightarrow> int \<times> int \<times> string option \<times> string option \<times> int \<times> int" where
  "job_columns m =
     (m_id m, m_user_id m, m_text m, m_photo_path m, m_interval_sec m, m_active m)"

text \<open>
  The four checks of the loop body that a job has to pass before the loop over the groups
  starts, on the store and the clock of the moment: none of its \<^verbatim>\<open>continue\<close> is taken.
\<close>

definition admitted :: "env \<Rightarrow> world \<Rightarrow> ad \<Rightarrow> bool" where
  "admitted E w ad =
     (case ad of (msg_id, user_id, text, photo, interval, last_sent) \<Rightarrow>
        sub_active E w user_id \<and>
        is_due E (utcnow w) last_sent interval \<and>
        user_groups w user_id \<noteq> [] \<and>
        truthy (first_session_string w user_id))"

text \<open>The first \<open>n\<close> connection blocks still to come all succeed.\<close>

definition store_up :: "nat \<Rightarrow> world \<Rightarrow> bool" where
  "store_up n w = (set (take n (db_faults w)) \<subseteq> {False})"

subsection \<open>A concrete store for the examples\<close>

text \<open>
  A finite excerpt of \<^verbatim>\<open>datetime.fromisoformat\<close> and \<^verbatim>\<open>isoformat\<close>: the instants of the
  examples, in seconds after 2024-01-01T00:00:00. Every other text fails to parse here,
  and every other instant is printed as a text that does not parse.
\<close>

definition demo_instants :: "(datetime \<times> string) list" where
  "demo_instants =
     [(0, ''2024-01-01T00:00:00''),
      (1 / 2, ''2024-01-01T00:00:00.500000''),
      (1, ''2024-01-01T00:00:01''),
      (3 / 2, ''2024-01-01T00:00:01.500000''),
      (5, ''2024-01-01T00:00:05''),
      (11 / 2, ''2024-01-01T00:00:05.500000''),
      (6, ''2024-01-01T00:00:06''),
      (30, ''2024-01-01T00:00:30''),
      (61 / 2, ''2024-01-01T00:00:30.500000''),
      (31, ''2024-01-01T00:00:31''),
      (60, ''2024-01-01T00:01:00''),
      (86400, ''2024-01-02T00:00:00'')]"

definition demo_fromisoformat :: "string \<Rightarrow> datetime option" where
  "demo_fromisoformat s = map_option fst (find (\<lambda>p. snd p = s) demo_instants)"

definition demo_isoformat :: "datetime \<Rightarrow> string" where
  "demo_isoformat t =
     (case find (\<lambda>p. fst p = t) demo_instants of
        None \<Rightarrow> ''outside the excerpt''
      | Some p \<Rightarrow> snd p)"

definition demo_env :: env where
  "demo_env =
     \<lparr>TAGLINE = ''Auto reklama'', ADMIN_ID = 0,
      fromisoformat = demo_fromisoformat, isoformat = demo_isoformat\<rparr>"

text \<open>
  Two owners, both subscribed until 2024-01-02 and both with a linked account; the first has
  two groups and the second one; one active job each, never sent. The clock stands at
  2024-01-01T00:00:00.
\<close>

definition demo_world :: world where
  "demo_world =
     \<lparr>users =
        [\<lparr>u_user_id = 1, u_is_admin = 0, u_paid_until = Some ''2024-01-02T00:00:00'', u_balance = 0\<rparr>,
         \<lparr>u_user_id = 2, u_is_admin = 0, u_paid_until = Some ''2024-01-02T00:00:00'', u_balance = 0\<rparr>],
      accounts =
        [\<lparr>a_id = 1, a_user_id = 1, a_phone = ''998900000001'', a_session_string = Some ''S1'',
          a_is_active = 1\<rparr>,
         \<lparr>a_id = 2, a_user_id = 2, a_phone = ''998900000002'', a_session_string = Some ''S2'',
          a_is_active = 1\<rparr>],
      groups =
        [\<lparr>g_id = 1, g_user_id = 1, g_group_id = ''@g1'', g_group_name = ''G1'', g_is_active = 1\<rparr>,
         \<lparr>g_id = 2, g_user_id = 1, g_group_id = ''@g2'', g_group_name = ''G2'', g_is_active = 1\<rparr>,
         \<lparr>g_id = 3, g_user_id = 2, g_group_id = ''@h1'', g_group_name = ''H1'', g_is_active = 1\<rparr>],
      messages =
        [\<lparr>m_id = 1, m_user_id = 1, m_text = Some ''Hello'', m_photo_path = None,
          m_interval_sec = 60, m_last_sent = None, m_active = 1, m_sent_count = 0\<rparr>,
         \<lparr>m_id = 2, m_user_id = 2, m_text = Some ''Sale'', m_photo_path = None,
          m_interval_sec = 60, m_last_sent = None, m_active = 1, m_sent_count = 0\<rparr>],
      clock = 0,
      db_faults = [],
      net_replies = [],
      trace = []\<rparr>"

text \<open>The same store after the first owner has dropped the second group and added a third.\<close>

definition demo_world_regrouped :: world where
  "demo_world_regrouped =
     demo_world\<lparr>groups :=
        [\<lparr>g_id = 1, g_user_id = 1, g_group_id = ''@g1'', g_group_name = ''G1'', g_is_active = 1\<rparr>,
         \<lparr>g_id = 2, g_user_id = 1, g_group_id = ''@g2'', g_group_name = ''G2'', g_is_active = 0\<rparr>,
         \<lparr>g_id = 3, g_user_id = 2, g_group_id = ''@h1'', g_group_name = ''H1'', g_is_active = 1\<rparr>,
         \<lparr>g_id = 4, g_user_id = 1, g_group_id = ''@g3'', g_group_name = ''G3'', g_is_active = 1\<rparr>]\<rparr>"

text \<open>
  The first owner's job alone, with the interval 100000000000000 that the owner typed into the
  interval dialog (it only refuses a number below 15), half a minute after its first pass.
\<close>

definition demo_world_long_interval :: world where
  "demo_world_long_interval =
     demo_world\<lparr>messages :=
        [\<lparr>m_id = 1, m_user_id = 1, m_text = Some ''Hello'', m_photo_path = None,
          m_interval_sec = 100000000000000, m_last_sent = Some ''2024-01-01T00:00:00'',
          m_active = 1, m_sent_count = 1\<rparr>],
      clock := 30\<rparr>"

text \<open>
  The first owner's job alone, with no text: the owner answered the text dialog with a message
  that has none (a sticker, say), and \<^verbatim>\<open>ads_text_received\<close> stored \<^verbatim>\<open>message.text\<close>, which is
  \<^verbatim>\<open>None\<close>.
\<close>

definition demo_world_null_text :: world where
  "demo_world_null_text =
     demo_world\<lparr>messages :=
        [\<lparr>m_id = 1, m_user_id = 1, m_text = None, m_photo_path = None,
          m_interval_sec = 60, m_last_sent = None, m_active = 1, m_sent_count = 0\<rparr>]\<rparr>"

section \<open>Properties\<close>

subsection \<open>What each step leaves alone\<close>

lemma sleep_fields [simp]:
  "users (sleep w d) = users w" "accounts (sleep w d) = accounts w"
  "groups (sleep w d) = groups w" "messages (sleep w d) = messages w"
  "db_faults (sleep w d) = db_faults w" "net_replies (sleep w d) = net_replies w"
  "trace (sleep w d) = trace w @ [Sleep d]" "clock (sleep w d) = clock w + max 0 d"
  by (simp_all add: sleep_def)

lemma log_event_fields [simp]:
  "users (log_event w e) = users w" "accounts (log_event w e) = accounts w"
  "groups (log_event w e) = groups w" "messages (log_event w e) = messages w"
  "db_faults (log_event w e) = db_faults w" "net_replies (log_event w e) = net_replies w"
  "trace (log_event w e) = trace w @ [e]" "clock (log_event w e) = clock w"
  by (simp_all add: log_event_def)

lemma db_next_fields [simp]:
  "users (db_next w) = users w" "accounts (db_next w) = accounts w"
  "groups (db_next w) = groups w" "messages (db_next w) = messages w"
  "db_faults (db_next w) = tl (db_faults w)" "net_replies (db_next w) = net_replies w"
  "trace (db_next w) = trace w" "clock (db_next w) = clock w"
  by (simp_all add: db_next_def)

lemma queries_db_next [simp]:
  "sub_active E (db_next w) u = sub_active E w u"
  "user_groups (db_next w) u = user_groups w u"
  "first_session_string (db_next w) u = first_session_string w u"
  "utcnow (db_next w) = utcnow w"
  "active_ads (db_next w) = active_ads w"
  by (simp_all add: sub_active_def user_groups_def first_session_string_def utcnow_def
        active_ads_def split: option.splits)

lemma store_up_Suc: "store_up (Suc n) w \<longleftrightarrow> \<not> db_fails w \<and> store_up n (db_next w)"
  by (cases "db_faults w") (auto simp: store_up_def db_fails_def)

lemma store_up_0 [simp]: "store_up 0 w"
  by (simp add: store_up_def)

lemma send_to_group_fields [simp]:
  "users (send_to_group w s t p g) = users w" "accounts (send_to_group w s t p g) = accounts w"
  "groups (send_to_group w s t p g) = groups w" "messages (send_to_group w s t p g) = messages w"
  "db_faults (send_to_group w s t p g) = db_faults w"
  by (auto simp: send_to_group_def send_ad_with_session_def Let_def split: prod.splits send_result.splits list.splits)

lemma fan_out_fields [simp]:
  "users (fan_out w s t p gs) = users w" "accounts (fan_out w s t p gs) = accounts w"
  "groups (fan_out w s t p gs) = groups w" "messages (fan_out w s t p gs) = messages w"
  "db_faults (fan_out w s t p gs) = db_faults w"
  by (induction gs arbitrary: w) simp_all

lemma requests_append [simp]: "requests (xs @ ys) = requests xs @ requests ys"
  by (simp add: requests_def)

lemma is_request_client_request [simp]: "is_request (client_request s g t p)"
  by (simp add: client_request_def split: option.splits)

lemma request_target_client_request [simp]: "request_target (client_request s g t p) = g"
  by (simp add: client_request_def split: option.splits)

lemma request_text_client_request [simp]: "request_text (client_request s g t p) = t"
  by (simp add: client_request_def split: option.splits)

lemma send_to_group_trace:
  "\<exists>new. trace (send_to_group w s t p g) = trace w @ new \<and>
         requests new = [client_request s (fst (snd g)) t p]"
  by (cases g) (auto simp: send_to_group_def send_ad_with_session_def Let_def requests_def
                split: send_result.splits list.splits)

lemma fan_out_trace:
  "\<exists>new. trace (fan_out w s t p gs) = trace w @ new \<and>
         requests new = map (\<lambda>g. client_request s (fst (snd g)) t p) gs"
proof (induction gs arbitrary: w)
  case Nil
  then show ?case by (simp add: requests_def)
next
  case (Cons g gs)
  obtain n1 where n1: "trace (send_to_group w s t p g) = trace w @ n1"
    "requests n1 = [client_request s (fst (snd g)) t p]"
    using send_to_group_trace by blast
  obtain n2 where n2: "trace (fan_out (send_to_group w s t p g) s t p gs) = trace (send_to_group w s t p g) @ n2"
    "requests n2 = map (\<lambda>g. client_request s (fst (snd g)) t p) gs"
    using Cons.IH by blast
  have "trace (fan_out w s t p (g # gs)) = trace w @ (n1 @ n2)"
    using n1 n2 by simp
  moreover have "requests (n1 @ n2) = map (\<lambda>g. client_request s (fst (snd g)) t p) (g # gs)"
    using n1 n2 by simp
  ultimately show ?case by blast
qed

lemma events_since_append [simp]: "trace w' = trace w @ new \<Longrightarrow> events_since w w' = new"
  by (simp add: events_since_def)

lemma update_last_sent_fields [simp]:
  "users (snd (update_last_sent E w i)) = users w"
  "accounts (snd (update_last_sent E w i)) = accounts w"
  "groups (snd (update_last_sent E w i)) = groups w"
  "trace (snd (update_last_sent E w i)) = trace w"
  "clock (snd (update_last_sent E w i)) = clock w"
  "db_faults (snd (update_last_sent E w i)) = tl (db_faults w)"
  by (simp_all add: update_last_sent_def)

lemma process_ad_admitted:
  assumes "admitted E w (i, u, t, p, iv, ls)" and "store_up 3 w"
    and "first_session_string w u = Some s"
  shows "process_ad E w (i, u, t, p, iv, ls) =
         update_last_sent E
           (fan_out (db_next (db_next (db_next w))) s (full_text E t) p (user_groups w u)) i"
  using assms
  by (simp add: admitted_def process_ad_def has_active_sub_def get_user_groups_def
        get_first_session_string_def store_up_Suc eval_nat_numeral truthy_def)

lemma process_ad_not_admitted:
  assumes "\<not> admitted E w (i, u, t, p, iv, ls)"
  shows "trace (snd (process_ad E w (i, u, t, p, iv, ls))) = trace w \<and>
         messages (snd (process_ad E w (i, u, t, p, iv, ls))) = messages w \<and>
         clock (snd (process_ad E w (i, u, t, p, iv, ls))) = clock w"
  using assms
  by (auto simp: admitted_def process_ad_def has_active_sub_def get_user_groups_def
        get_first_session_string_def truthy_def split: option.splits)

subsection \<open>The columns the worker never writes\<close>

lemma job_columns_mark_sent [simp]: "job_columns (mark_sent stamp i m) = job_columns m"
  by (simp add: mark_sent_def job_columns_def)

lemma m_id_mark_sent [simp]: "m_id (mark_sent stamp i m) = m_id m"
  by (simp add: mark_sent_def)

lemma update_last_sent_columns [simp]:
  "map job_columns (messages (snd (update_last_sent E w i))) = map job_columns (messages w)"
  by (simp add: update_last_sent_def comp_def)

lemma process_ad_frame:
  "users (snd (process_ad E w ad)) = users w \<and>
   accounts (snd (process_ad E w ad)) = accounts w \<and>
   groups (snd (process_ad E w ad)) = groups w \<and>
   map job_columns (messages (snd (process_ad E w ad))) = map job_columns (messages w)"
  by (cases ad)
     (simp add: process_ad_def has_active_sub_def get_user_groups_def
        get_first_session_string_def split: option.splits)

lemma for_ads_frame:
  "users (snd (for_ads E w ads)) = users w \<and>
   accounts (snd (for_ads E w ads)) = accounts w \<and>
   groups (snd (for_ads E w ads)) = groups w \<and>
   map job_columns (messages (snd (for_ads E w ads))) = map job_columns (messages w)"
proof (induction ads arbitrary: w)
  case Nil
  then show ?case by simp
next
  case (Cons ad ads)
  obtain r w' where p: "process_ad E w ad = (r, w')" by (cases "process_ad E w ad")
  have f: "users w' = users w \<and> accounts w' = accounts w \<and> groups w' = groups w \<and>
           map job_columns (messages w') = map job_columns (messages w)"
    using process_ad_frame [of E w ad] p by simp
  show ?case
  proof (cases r)
    case (Inl e)
    then show ?thesis using p f by simp
  next
    case (Inr u)
    then show ?thesis using p f Cons.IH [of w'] by simp
  qed
qed

lemma ads_worker_tick_frame:
  "users (ads_worker_tick E w) = users w \<and>
   accounts (ads_worker_tick E w) = accounts w \<and>
   groups (ads_worker_tick E w) = groups w \<and>
   map job_columns (messages (ads_worker_tick E w)) = map job_columns (messages w)"
proof (cases "db_fails w")
  case True
  then show ?thesis by (simp add: ads_worker_tick_def select_active_ads_def)
next
  case False
  obtain r w' where p: "for_ads E (db_next w) (active_ads w) = (r, w')"
    by (cases "for_ads E (db_next w) (active_ads w)")
  have f: "users w' = users w \<and> accounts w' = accounts w \<and> groups w' = groups w \<and>
           map job_columns (messages w') = map job_columns (messages w)"
    using for_ads_frame [of E "db_next w" "active_ads w"] p by simp
  show ?thesis
    using False p f by (cases r) (simp_all add: ads_worker_tick_def select_active_ads_def)
qed

lemma ads_worker_ticks_frame:
  "users (ads_worker_ticks E n w) = users w \<and>
   accounts (ads_worker_ticks E n w) = accounts w \<and>
   groups (ads_worker_ticks E n w) = groups w \<and>
   map job_columns (messages (ads_worker_ticks E n w)) = map job_columns (messages w)"
proof (induction n arbitrary: w)
  case 0
  then show ?case by simp
next
  case (Suc n)
  show ?case
    using Suc.IH [of "ads_worker_tick E w"] ads_worker_tick_frame [of E w] by simp
qed

subsection \<open>The loop over the jobs\<close>

lemma for_ads_append:
  "for_ads E w (xs @ ys) =
     (case for_ads E w xs of (Inl e, w') \<Rightarrow> (Inl e, w') | (Inr u, w') \<Rightarrow> for_ads E w' ys)"
  by (induction xs arbitrary: w) (auto split: prod.splits sum.splits)

subsection \<open>The requests of one job\<close>

lemma job_columns_content:
  assumes "map job_columns ms' = map job_columns ms"
  shows "map m_text ms' = map m_text ms \<and> map m_photo_path ms' = map m_photo_path ms"
proof -
  have t: "map m_text xs = map (\<lambda>c. fst (snd (snd c))) (map job_columns xs)" for xs
    by (simp add: job_columns_def)
  have p: "map m_photo_path xs = map (\<lambda>c. fst (snd (snd (snd c)))) (map job_columns xs)" for xs
    by (simp add: job_columns_def)
  show ?thesis using assms by (simp only: t p)
qed

lemma process_ad_requests:
  assumes "admitted E w (i, u, t, p, iv, ls)" and "store_up 3 w"
  shows "\<exists>s. first_session_string w u = Some s \<and>
           requests (events_since w (snd (process_ad E w (i, u, t, p, iv, ls)))) =
           map (\<lambda>g. client_request s (fst (snd g)) (full_text E t) p) (user_groups w u)"
proof -
  obtain s where s: "first_session_string w u = Some s"
    using assms(1) by (auto simp: admitted_def truthy_def split: option.splits)
  let ?w3 = "db_next (db_next (db_next w))"
  obtain new where new:
    "trace (fan_out ?w3 s (full_text E t) p (user_groups w u)) = trace ?w3 @ new"
    "requests new = map (\<lambda>g. client_request s (fst (snd g)) (full_text E t) p) (user_groups w u)"
    using fan_out_trace by blast
  have "trace (snd (process_ad E w (i, u, t, p, iv, ls))) = trace w @ new"
    using process_ad_admitted [OF assms s] new by simp
  then show ?thesis using s new by simp
qed

subsection \<open>The row of one job through a turn\<close>

lemma find_mark_sent_other:
  "i \<noteq> j \<Longrightarrow> find (\<lambda>m. m_id m = i) (map (mark_sent st j) ms) = find (\<lambda>m. m_id m = i) ms"
  by (induction ms) (auto simp: mark_sent_def)

lemma find_mark_sent_same:
  "find (\<lambda>m. m_id m = i) ms = Some m \<Longrightarrow>
   find (\<lambda>m. m_id m = i) (map (mark_sent st i) ms) = Some (mark_sent st i m)"
  by (induction ms) (auto simp: mark_sent_def split: if_splits)

lemma process_ad_messages:
  "messages (snd (process_ad E w (i, u, t, p, iv, ls))) = messages w \<or>
   (\<exists>st. messages (snd (process_ad E w (i, u, t, p, iv, ls))) = map (mark_sent st i) (messages w))"
proof -
  have u: "messages (snd (update_last_sent E w' i)) = messages w' \<or>
           (\<exists>st. messages (snd (update_last_sent E w' i)) = map (mark_sent st i) (messages w'))"
    for w'
    by (cases "db_fails w'") (simp_all add: update_last_sent_def, blast)
  show ?thesis
    using u [of "fan_out (db_next (db_next (db_next w))) s (full_text E t) p (user_groups w u)" for s]
    by (simp add: process_ad_def has_active_sub_def get_user_groups_def
          get_first_session_string_def split: option.splits)
qed

lemma row_of_process_ad_other:
  assumes "j \<noteq> fst ad"
  shows "row_of (snd (process_ad E w ad)) j = row_of w j"
proof -
  obtain i u t p iv ls where ad: "ad = (i, u, t, p, iv, ls)" by (cases ad)
  show ?thesis
    using process_ad_messages [of E w i u t p iv ls] assms
    by (auto simp: ad row_of_def find_mark_sent_other)
qed

lemma row_of_for_ads_other:
  assumes "j \<notin> fst ` set ads"
  shows "row_of (snd (for_ads E w ads)) j = row_of w j"
  using assms
proof (induction ads arbitrary: w)
  case Nil
  then show ?case by simp
next
  case (Cons ad ads)
  obtain r w' where p: "process_ad E w ad = (r, w')" by (cases "process_ad E w ad")
  have a: "row_of w' j = row_of w j"
    using row_of_process_ad_other [of j ad E w] Cons.prems p by simp
  show ?case
  proof (cases r)
    case (Inl e)
    then show ?thesis using p a by simp
  next
    case (Inr x)
    then show ?thesis using p a Cons.IH [of w'] Cons.prems by simp
  qed
qed

lemma active_ads_ids: "map fst (active_ads w) = map m_id (filter (\<lambda>m. m_active m = 1) (messages w))"
  by (simp add: active_ads_def comp_def)

lemma active_ads_row:
  assumes "(i, u, t, p, iv, ls) \<in> set (active_ads w)"
  shows "\<exists>m \<in> set (messages w). m_active m = 1 \<and>
           (m_id m, m_user_id m, m_text m, m_photo_path m, m_interval_sec m, m_last_sent m) =
           (i, u, t, p, iv, ls)"
  using assms by (auto simp: active_ads_def)

lemma messages_tick:
  assumes "\<not> db_fails w"
  shows "messages (ads_worker_tick E w) = messages (snd (for_ads E (db_next w) (active_ads w)))"
  using assms
  by (simp add: ads_worker_tick_def select_active_ads_def split: prod.splits sum.splits)

subsection \<open>What the checks of the loop body read\<close>

lemma sub_active_row:
  assumes "sub_active E w u"
  shows "\<exists>row s d. find (\<lambda>r. u_user_id r = u) (users w) = Some row \<and>
           u_paid_until row = Some s \<and> fromisoformat E s = Some d \<and> utcnow w < d"
  using assms by (auto simp: sub_active_def split: option.splits if_splits)

lemma user_groups_row:
  assumes "user_groups w u \<noteq> []"
  shows "\<exists>g \<in> set (groups w). g_user_id g = u \<and> g_is_active g = 1"
  using assms by (auto simp: user_groups_def filter_empty_conv)

lemma first_session_string_row:
  assumes "truthy (first_session_string w u)"
  shows "\<exists>a \<in> set (accounts w). a_user_id a = u \<and> a_is_active a = 1 \<and>
           truthy (a_session_string a)"
  using assms
  by (auto simp: first_session_string_def truthy_def find_Some_iff split: option.splits)

lemma find_app:
  "find P (xs @ ys) = (case find P xs of None \<Rightarrow> find P ys | Some x \<Rightarrow> Some x)"
  by (induction xs) auto

lemma select_active_ads_Inr:
  assumes "select_active_ads w = (Inr ads, w1)"
  shows "\<not> db_fails w \<and> w1 = db_next w \<and> ads = active_ads w"
  using assms by (auto simp: select_active_ads_def split: if_splits)

subsection \<open>The time check\<close>

text \<open>
  The time check in full: a job goes through when its \<^verbatim>\<open>last_sent\<close> is \<^verbatim>\<open>NULL\<close> or empty, when
  it does not parse, when \<^verbatim>\<open>timedelta(seconds=interval)\<close> raises, or when at least
  \<open>interval\<close> seconds have passed since the time it parses to.
\<close>

lemma is_due_cases:
  "is_due E now last_sent interval \<longleftrightarrow>
     (last_sent = None \<or> last_sent = Some [] \<or>
      (\<exists>s. last_sent = Some s \<and> fromisoformat E s = None) \<or>
      timedelta_seconds interval = None \<or>
      (\<exists>s last_dt. last_sent = Some s \<and> fromisoformat E s = Some last_dt \<and>
          of_int interval \<le> now - last_dt))"
  by (auto simp: is_due_def timedelta_seconds_def split: option.splits)

text \<open>An interval of 60 seconds: due after exactly 60 seconds, not due after 30.\<close>

lemma is_due_boundary:
  "is_due demo_env 60 (Some ''2024-01-01T00:00:00'') 60 \<and>
   \<not> is_due demo_env 30 (Some ''2024-01-01T00:00:00'') 60"
  by (simp add: is_due_cases timedelta_seconds_def demo_env_def demo_fromisoformat_def
        demo_instants_def)

text \<open>
  C4. The time check is meant to let a job through if and only if it never ran or its
  interval has passed. The code misses that on a job whose interval is beyond
  \<^verbatim>\<open>timedelta.max\<close>: with the interval 100000000000000 and a last run that parses to 30 seconds
  before now, \<^verbatim>\<open>timedelta(seconds=interval)\<close> raises \<^verbatim>\<open>OverflowError\<close> inside the \<^verbatim>\<open>try\<close> that
  is there for the parse, \<^verbatim>\<open>except Exception: pass\<close> swallows it, and the job is due. The turn
  sends it to both groups and counts a second pass, 30 seconds after the first.
\<close>

theorem is_due_interval_overflow:
  "fromisoformat demo_env ''2024-01-01T00:00:00'' = Some 0 \<and>
   clock demo_world_long_interval - 0 < of_int 100000000000000 \<and>
   is_due demo_env (clock demo_world_long_interval) (Some ''2024-01-01T00:00:00'')
     100000000000000 \<and>
   map request_target (requests (trace (ads_worker_tick demo_env demo_world_long_interval))) =
     [''@g1'', ''@g2''] \<and>
   map m_sent_count (messages (ads_worker_tick demo_env demo_world_long_interval)) = [2]"
  by code_simp



subsection \<open>What the worker writes\<close>

text \<open>
  C7. However many turns of its loop the worker runs, the users, the accounts and the groups
  are what they were, and so is every column of every job but \<^verbatim>\<open>last_sent\<close> and
  \<^verbatim>\<open>sent_count\<close>: the id, the owner, the text, the photo, the interval and the active flag.
\<close>

theorem ads_worker_writes_only_runtime_columns:
  "users (ads_worker E n w) = users w \<and>
   accounts (ads_worker E n w) = accounts w \<and>
   groups (ads_worker E n w) = groups w \<and>
   map job_columns (messages (ads_worker E n w)) = map job_columns (messages w)"
  using ads_worker_ticks_frame [of E n "log_event w Log_info_started"]
  by (simp add: ads_worker_def)

subsection \<open>An exception that leaves the loop body\<close>

text \<open>
  C2, as the code has it. When the body of the loop raises for one job, after the jobs before
  it went through, the \<^verbatim>\<open>except\<close> around the whole turn catches the exception: the worker logs
  \<^verbatim>\<open>Worker loop error\<close> in the world that job left, sleeps 8 seconds, and goes on with the
  next turn of \<^verbatim>\<open>while True\<close>. The jobs after it are not looked at in this turn.
\<close>

theorem job_error_ends_the_tick:
  assumes "select_active_ads w = (Inr (pre @ ad # post), w1)"
    and "for_ads E w1 pre = (Inr (), w2)"
    and "process_ad E w2 ad = (Inl e, w3)"
  shows "ads_worker_tick E w = sleep (log_event w3 Log_error_Worker_loop) 8 \<and>
         ads_worker_ticks E (Suc n) w =
           ads_worker_ticks E n (sleep (log_event w3 Log_error_Worker_loop) 8)"
  using assms by (simp add: ads_worker_tick_def for_ads_append)

text \<open>The query of the turn succeeds and the subscription read of the first job fails.\<close>

theorem job_error_ends_the_tick_witness:
  "ads_worker_tick demo_env (demo_world\<lparr>db_faults := [False, True]\<rparr>) =
     sleep (log_event demo_world Log_error_Worker_loop) 8"
proof -
  have a: "select_active_ads (demo_world\<lparr>db_faults := [False, True]\<rparr>) =
             (Inr ([] @ (1, 1, Some ''Hello'', None, 60, None) #
                     [(2, 2, Some ''Sale'', None, 60, None)]),
              demo_world\<lparr>db_faults := [True]\<rparr>)"
    by (simp add: select_active_ads_def active_ads_def db_fails_def db_next_def demo_world_def)
  have b: "for_ads demo_env (demo_world\<lparr>db_faults := [True]\<rparr>) [] =
             (Inr (), demo_world\<lparr>db_faults := [True]\<rparr>)"
    by simp
  have c: "process_ad demo_env (demo_world\<lparr>db_faults := [True]\<rparr>)
             (1, 1, Some ''Hello'', None, 60, None) = (Inl DatabaseError, demo_world)"
    by (simp add: process_ad_def has_active_sub_def db_fails_def db_next_def demo_world_def)
  show ?thesis
    using job_error_ends_the_tick [OF a b c, of 0] by simp
qed

text \<open>
  C2 as the specification words it fails: the second job passes every check and is sent to
  its group in a turn without failures, and when the subscription read of the first job
  fails, the turn ends with the log line and the sleep, no request is made and no job is
  written.
\<close>

theorem job_error_isolated_counterexample:
  "admitted demo_env demo_world (2, 2, Some ''Sale'', None, 60, None) \<and>
   map request_target (requests (trace (ads_worker_tick demo_env demo_world))) =
     [''@g1'', ''@g2'', ''@h1''] \<and>
   trace (ads_worker_tick demo_env (demo_world\<lparr>db_faults := [False, True]\<rparr>)) =
     [Log_error_Worker_loop, Sleep 8] \<and>
   messages (ads_worker_tick demo_env (demo_world\<lparr>db_faults := [False, True]\<rparr>)) =
     messages demo_world"
  by code_simp

subsection \<open>A throttled send\<close>

text \<open>
  C1, as the code has it. When the send to a group raises \<^verbatim>\<open>FloodWaitError\<close>, the worker logs
  a warning, sleeps exactly the \<^verbatim>\<open>seconds\<close> the error carries, and goes on with the groups
  that are left: the pass from this group on is the pass over the remaining groups, started
  in the world with the request, the warning and the sleep appended and nothing else changed.
  The group is not tried again: whatever the network answers, the requests of a pass are one
  per group, in the order of the groups.
\<close>

theorem flood_wait_sleeps_then_next_group:
  assumes "net_replies w = FloodWaitError seconds # rest"
  shows "fan_out w session text photo ((i, group_ref, name) # gs) =
           fan_out
             (w\<lparr>clock := clock w + max 0 (of_int seconds),
               net_replies := rest,
               trace := trace w @
                 [client_request session group_ref text photo,
                  Log_warning_FloodWait seconds,
                  Sleep (of_int seconds)]\<rparr>)
             session text photo gs \<and>
         requests (events_since w (fan_out w session text photo ((i, group_ref, name) # gs))) =
           map (\<lambda>g. client_request session (fst (snd g)) text photo) ((i, group_ref, name) # gs)"
proof -
  have "send_to_group w session text photo (i, group_ref, name) =
          w\<lparr>clock := clock w + max 0 (of_int seconds),
            net_replies := rest,
            trace := trace w @
              [client_request session group_ref text photo,
               Log_warning_FloodWait seconds,
               Sleep (of_int seconds)]\<rparr>"
    using assms
    by (simp add: send_to_group_def send_ad_with_session_def sleep_def log_event_def)
  moreover obtain new where
    "trace (fan_out w session text photo ((i, group_ref, name) # gs)) = trace w @ new"
    "requests new =
       map (\<lambda>g. client_request session (fst (snd g)) text photo) ((i, group_ref, name) # gs)"
    using fan_out_trace by blast
  ultimately show ?thesis by simp
qed

text \<open>
  The first of two groups throttles with a wait of 5 seconds.
\<close>

theorem flood_wait_sleeps_then_next_group_witness:
  "trace (fan_out (demo_world\<lparr>net_replies := [FloodWaitError 5]\<rparr>) ''S1'' (Some ''Hello'') None
            [(1, ''@g1'', ''G1''), (2, ''@g2'', ''G2'')]) =
     [Send_message ''S1'' ''@g1'' (Some ''Hello''), Log_warning_FloodWait 5, Sleep 5,
      Send_message ''S1'' ''@g2'' (Some ''Hello''), Sleep (1 / 2)]"
proof -
  have a: "net_replies (demo_world\<lparr>net_replies := [FloodWaitError 5]\<rparr>) = FloodWaitError 5 # []"
    by simp
  show ?thesis
    using flood_wait_sleeps_then_next_group [OF a, of "''S1''" "Some ''Hello''" None 1 "''@g1''" "''G1''"
        "[(2, ''@g2'', ''G2'')]"]
    by (simp add: demo_world_def send_to_group_def send_ad_with_session_def client_request_def
          sleep_def log_event_def)
qed

text \<open>
  C1 as the specification words it fails: in a turn where the first send to \<^verbatim>\<open>@g1\<close> is
  throttled with a wait of 5 seconds and every later send would be delivered, the worker
  sleeps 5 seconds and its next request goes to \<^verbatim>\<open>@g2\<close>; the turn has one request to
  \<^verbatim>\<open>@g1\<close>, not two.
\<close>

theorem flood_wait_retry_counterexample:
  "trace (ads_worker_tick demo_env
            (demo_world\<lparr>net_replies := [FloodWaitError 5, Delivered, Delivered]\<rparr>)) =
     [Send_message ''S1'' ''@g1'' (Some ''Hello\<newline>\<newline>Auto reklama''),
      Log_warning_FloodWait 5, Sleep 5,
      Send_message ''S1'' ''@g2'' (Some ''Hello\<newline>\<newline>Auto reklama''), Sleep (1 / 2),
      Send_message ''S2'' ''@h1'' (Some ''Sale\<newline>\<newline>Auto reklama''), Sleep (1 / 2),
      Sleep 8] \<and>
   length (filter (\<lambda>e. is_request e \<and> request_target e = ''@g1'')
             (trace (ads_worker_tick demo_env
                (demo_world\<lparr>net_replies := [FloodWaitError 5, Delivered, Delivered]\<rparr>)))) = 1"
  by code_simp

subsection \<open>Where and what a pass sends\<close>

text \<open>
  C8. For a job that passes the checks of the loop body, while the store answers its three
  reads, the targets of the requests of its pass are the \<^verbatim>\<open>group_id\<close>s of the owner's groups
  with \<^verbatim>\<open>is_active = 1\<close> in the store as it is when the job is processed, all of them, in table
  order. Nothing of the job says which groups it goes to, so a group added or switched off
  between two passes is in, or out of, the next one.
\<close>

theorem pass_sends_to_current_groups:
  assumes "admitted E w (msg_id, user_id, text, photo, interval, last_sent)"
    and "store_up 3 w"
  shows "map request_target
           (requests (events_since w
              (snd (process_ad E w (msg_id, user_id, text, photo, interval, last_sent))))) =
         map g_group_id
           (filter (\<lambda>g. g_user_id g = user_id \<and> g_is_active g = 1) (groups w))"
proof -
  obtain s where
    "requests (events_since w
        (snd (process_ad E w (msg_id, user_id, text, photo, interval, last_sent)))) =
     map (\<lambda>g. client_request s (fst (snd g)) (full_text E text) photo) (user_groups w user_id)"
    using process_ad_requests [OF assms] by blast
  then show ?thesis by (simp add: user_groups_def comp_def)
qed

text \<open>
  The same job with the owner's groups before and after the owner changed them.
\<close>

theorem pass_sends_to_current_groups_witness:
  "map request_target (requests (events_since demo_world
      (snd (process_ad demo_env demo_world (1, 1, Some ''Hello'', None, 60, None))))) =
     [''@g1'', ''@g2''] \<and>
   map request_target (requests (events_since demo_world_regrouped
      (snd (process_ad demo_env demo_world_regrouped (1, 1, Some ''Hello'', None, 60, None))))) =
     [''@g1'', ''@g3'']"
proof -
  have a1: "admitted demo_env demo_world (1, 1, Some ''Hello'', None, 60, None)" by code_simp
  have b1: "store_up 3 demo_world" by code_simp
  have a2: "admitted demo_env demo_world_regrouped (1, 1, Some ''Hello'', None, 60, None)"
    by code_simp
  have b2: "store_up 3 demo_world_regrouped" by code_simp
  show ?thesis
    using pass_sends_to_current_groups [OF a1 b1] pass_sends_to_current_groups [OF a2 b2]
    by (simp add: demo_world_def demo_world_regrouped_def)
qed

text \<open>
  For a job with a stored text that passes the checks, every request of its pass carries, as
  text or as caption, the stored text followed by two newlines and the tagline when the
  tagline is not empty, and the stored text itself when it is empty. The \<^verbatim>\<open>text\<close> and
  \<^verbatim>\<open>photo_path\<close> columns of every job are what they were.
\<close>

lemma pass_sends_text_with_tagline:
  assumes "admitted E w (msg_id, user_id, Some body, photo, interval, last_sent)"
    and "store_up 3 w"
    and "e \<in> set (requests (events_since w
            (snd (process_ad E w (msg_id, user_id, Some body, photo, interval, last_sent)))))"
  shows "request_text e =
           Some (if TAGLINE E \<noteq> [] then body @ [CHR 0x0A, CHR 0x0A] @ TAGLINE E else body) \<and>
         map m_text (messages (snd (process_ad E w
            (msg_id, user_id, Some body, photo, interval, last_sent)))) = map m_text (messages w) \<and>
         map m_photo_path (messages (snd (process_ad E w
            (msg_id, user_id, Some body, photo, interval, last_sent)))) =
           map m_photo_path (messages w)"
proof -
  obtain s where
    "requests (events_since w
        (snd (process_ad E w (msg_id, user_id, Some body, photo, interval, last_sent)))) =
     map (\<lambda>g. client_request s (fst (snd g)) (full_text E (Some body)) photo)
       (user_groups w user_id)"
    using process_ad_requests [OF assms(1,2)] by blast
  with assms(3) have "request_text e = full_text E (Some body)" by auto
  then have tx: "request_text e =
      Some (if TAGLINE E \<noteq> [] then body @ [CHR 0x0A, CHR 0x0A] @ TAGLINE E else body)"
    by (simp add: full_text_def py_str_def)
  have "map job_columns (messages (snd (process_ad E w
            (msg_id, user_id, Some body, photo, interval, last_sent)))) =
        map job_columns (messages w)"
    using process_ad_frame by blast
  from job_columns_content [OF this] tx show ?thesis by simp
qed

text \<open>
  The tagline \<^verbatim>\<open>Auto reklama\<close>, and no tagline.
\<close>

lemma pass_sends_text_with_tagline_examples:
  "Send_message ''S1'' ''@g2'' (Some ''Hello\<newline>\<newline>Auto reklama'') \<in>
     set (requests (events_since demo_world
       (snd (process_ad demo_env demo_world (1, 1, Some ''Hello'', None, 60, None))))) \<and>
   Send_message ''S1'' ''@g2'' (Some ''Hello'') \<in>
     set (requests (events_since demo_world
       (snd (process_ad (demo_env\<lparr>TAGLINE := []\<rparr>) demo_world
          (1, 1, Some ''Hello'', None, 60, None))))) \<and>
   map m_text (messages
       (snd (process_ad demo_env demo_world (1, 1, Some ''Hello'', None, 60, None)))) =
     [Some ''Hello'', Some ''Sale'']"
proof -
  have a1: "admitted demo_env demo_world (1, 1, Some ''Hello'', None, 60, None)" by code_simp
  have a2: "admitted (demo_env\<lparr>TAGLINE := []\<rparr>) demo_world (1, 1, Some ''Hello'', None, 60, None)"
    by code_simp
  have b: "store_up 3 demo_world" by code_simp
  have c1: "Send_message ''S1'' ''@g2'' (Some ''Hello\<newline>\<newline>Auto reklama'') \<in>
     set (requests (events_since demo_world
       (snd (process_ad demo_env demo_world (1, 1, Some ''Hello'', None, 60, None)))))"
    by code_simp
  have c2: "Send_message ''S1'' ''@g2'' (Some ''Hello'') \<in>
     set (requests (events_since demo_world
       (snd (process_ad (demo_env\<lparr>TAGLINE := []\<rparr>) demo_world
          (1, 1, Some ''Hello'', None, 60, None)))))"
    by code_simp
  show ?thesis
    using pass_sends_text_with_tagline [OF a1 b c1] pass_sends_text_with_tagline [OF a2 b c2] c1 c2
    by (simp add: demo_world_def)
qed

text \<open>
  C9. What a pass sends is meant to be the stored text, a blank line and the tagline. The
  code misses that on a job whose \<^verbatim>\<open>text\<close> column is \<^verbatim>\<open>NULL\<close>: the f-string prints \<^verbatim>\<open>None\<close>,
  and with the tagline \<^verbatim>\<open>Auto reklama\<close> both groups of the owner are sent the word None, a
  blank line and the tagline. The stored text is still \<^verbatim>\<open>NULL\<close> after the turn.
\<close>

theorem null_text_sent_as_None:
  "map m_text (messages demo_world_null_text) = [None] \<and>
   map request_target (requests (trace (ads_worker_tick demo_env demo_world_null_text))) =
     [''@g1'', ''@g2''] \<and>
   map request_text (requests (trace (ads_worker_tick demo_env demo_world_null_text))) =
     [Some ''None\<newline>\<newline>Auto reklama'', Some ''None\<newline>\<newline>Auto reklama''] \<and>
   map m_text (messages (ads_worker_tick demo_env demo_world_null_text)) = [None]"
  by code_simp

subsection \<open>The update after a pass\<close>

text \<open>
  C3. In a turn over a store whose job ids are distinct, take a job of the query that the
  loop reaches (no job before it raised) and that passes the four checks in the world of
  that moment, with the store answering the four connection blocks of its body. Then at
  the end of the turn its row is the row of the start of the turn with \<^verbatim>\<open>sent_count\<close> one
  higher and \<^verbatim>\<open>last_sent\<close> the clock reading of its update, printed by \<^verbatim>\<open>isoformat\<close>.
  Nothing is assumed about the replies of the network: the sends may all fail.
\<close>

theorem admitted_job_recorded_once:
  assumes ids: "distinct (map m_id (messages w))"
    and sel: "select_active_ads w =
                (Inr (pre @ (msg_id, user_id, text, photo, interval, last_sent) # post), w1)"
    and pre: "for_ads E w1 pre = (Inr (), w2)"
    and adm: "admitted E w2 (msg_id, user_id, text, photo, interval, last_sent)"
    and up: "store_up 4 w2"
  shows "\<exists>m. row_of w msg_id = Some m \<and>
           row_of (ads_worker_tick E w) msg_id =
             Some (m\<lparr>m_last_sent :=
                       Some (isoformat E (utcnow (snd (process_ad E w2
                          (msg_id, user_id, text, photo, interval, last_sent))))),
                     m_sent_count := m_sent_count m + 1\<rparr>)"
proof -
  let ?ad = "(msg_id, user_id, text, photo, interval, last_sent)"
  have ok: "\<not> db_fails w" and w1: "w1 = db_next w" and ads: "active_ads w = pre @ ?ad # post"
    using sel by (auto simp: select_active_ads_def split: if_splits)
  have "distinct (map fst (active_ads w))"
    using ids by (simp add: active_ads_ids distinct_map_filter)
  then have np: "msg_id \<notin> fst ` set pre" and nq: "msg_id \<notin> fst ` set post"
    by (auto simp: ads)
  have "?ad \<in> set (active_ads w)" by (simp add: ads)
  then have "\<exists>m \<in> set (messages w). m_id m = msg_id"
    using active_ads_row by fastforce
  then obtain m where m: "row_of w msg_id = Some m"
    by (cases "row_of w msg_id") (auto simp: row_of_def find_None_iff)
  have m2: "row_of w2 msg_id = Some m"
    using row_of_for_ads_other [OF np, of E w1] pre m by (simp add: w1 row_of_def)
  obtain s where s: "first_session_string w2 user_id = Some s"
    using adm by (auto simp: admitted_def truthy_def split: option.splits)
  let ?wf = "fan_out (db_next (db_next (db_next w2))) s (full_text E text) photo
               (user_groups w2 user_id)"
  have up3: "store_up 3 w2" and up4: "\<not> db_fails ?wf"
    using up by (auto simp: store_up_Suc eval_nat_numeral db_fails_def)
  have pa: "process_ad E w2 ?ad = update_last_sent E ?wf msg_id"
    using process_ad_admitted [OF adm up3 s] .
  obtain w3 where p3: "process_ad E w2 ?ad = (Inr (), w3)"
    and m3: "messages w3 = map (mark_sent (isoformat E (utcnow w3)) msg_id) (messages w2)"
    using up4 by (simp add: pa update_last_sent_def utcnow_def)
  have row3: "row_of w3 msg_id = Some (mark_sent (isoformat E (utcnow w3)) msg_id m)"
    using m2 by (simp add: row_of_def m3 find_mark_sent_same)
  have "for_ads E w1 (pre @ ?ad # post) = for_ads E w3 post"
    using pre p3 by (simp add: for_ads_append)
  then have "messages (ads_worker_tick E w) = messages (snd (for_ads E w3 post))"
    using messages_tick [OF ok, of E] by (simp add: ads w1)
  then have "row_of (ads_worker_tick E w) msg_id = row_of (snd (for_ads E w3 post)) msg_id"
    by (simp add: row_of_def)
  also have "\<dots> = row_of w3 msg_id"
    using row_of_for_ads_other [OF nq] .
  finally have "row_of (ads_worker_tick E w) msg_id =
                  Some (mark_sent (isoformat E (utcnow (snd (process_ad E w2 ?ad)))) msg_id m)"
    using row3 p3 by simp
  moreover have "m_id m = msg_id"
    using m by (auto simp: row_of_def find_Some_iff)
  ultimately show ?thesis
    using m by (simp add: mark_sent_def)
qed

text \<open>
  A turn in which both sends of the first job fail.
\<close>

theorem admitted_job_recorded_once_witness:
  "row_of (ads_worker_tick demo_env (demo_world\<lparr>net_replies := [SendError, SendError]\<rparr>)) 1 =
     Some \<lparr>m_id = 1, m_user_id = 1, m_text = Some ''Hello'', m_photo_path = None,
           m_interval_sec = 60, m_last_sent = Some ''2024-01-01T00:00:00'', m_active = 1,
           m_sent_count = 1\<rparr>"
proof -
  let ?w = "demo_world\<lparr>net_replies := [SendError, SendError]\<rparr>"
  have ids: "distinct (map m_id (messages ?w))" by code_simp
  have sel: "select_active_ads ?w =
               (Inr ([] @ (1, 1, Some ''Hello'', None, 60, None) #
                       [(2, 2, Some ''Sale'', None, 60, None)]), ?w)"
    by code_simp
  have pre: "for_ads demo_env ?w [] = (Inr (), ?w)" by simp
  have adm: "admitted demo_env ?w (1, 1, Some ''Hello'', None, 60, None)" by code_simp
  have up: "store_up 4 ?w" by code_simp
  have row: "row_of ?w 1 =
     Some \<lparr>m_id = 1, m_user_id = 1, m_text = Some ''Hello'', m_photo_path = None,
           m_interval_sec = 60, m_last_sent = None, m_active = 1, m_sent_count = 0\<rparr>"
    by code_simp
  have now: "isoformat demo_env (utcnow (snd (process_ad demo_env ?w
               (1, 1, Some ''Hello'', None, 60, None)))) = ''2024-01-01T00:00:00''"
    by code_simp
  show ?thesis
    using admitted_job_recorded_once [OF ids sel pre adm up] row now by simp
qed

subsection \<open>Who gets a pass\<close>

text \<open>
  C5. When the loop body, run on a job of the turn's query, does anything that can be seen
  (a request, a sleep, a log line), then the job is a stored row with \<^verbatim>\<open>active = 1\<close>, the
  owner's \<^verbatim>\<open>paid_until\<close> parses to a time strictly later than the clock of that moment, the
  owner has a group with \<^verbatim>\<open>is_active = 1\<close>, and the owner has an active account with a
  non-empty session string. A row with any other value of \<^verbatim>\<open>active\<close> is not in the query and
  never reaches the body.
\<close>

theorem pass_only_if_eligible:
  assumes sel: "select_active_ads w =
                  (Inr (pre @ (msg_id, user_id, text, photo, interval, last_sent) # post), w1)"
    and pre: "for_ads E w1 pre = (Inr (), w2)"
    and pass: "events_since w2
                 (snd (process_ad E w2 (msg_id, user_id, text, photo, interval, last_sent))) \<noteq> []"
  shows "(\<exists>m \<in> set (messages w). m_active m = 1 \<and>
            (m_id m, m_user_id m, m_text m, m_photo_path m, m_interval_sec m, m_last_sent m) =
            (msg_id, user_id, text, photo, interval, last_sent)) \<and>
         (\<exists>row s d. find (\<lambda>r. u_user_id r = user_id) (users w) = Some row \<and>
            u_paid_until row = Some s \<and> fromisoformat E s = Some d \<and> utcnow w2 < d) \<and>
         (\<exists>g \<in> set (groups w). g_user_id g = user_id \<and> g_is_active g = 1) \<and>
         (\<exists>a \<in> set (accounts w). a_user_id a = user_id \<and> a_is_active a = 1 \<and>
            truthy (a_session_string a))"
proof -
  let ?ad = "(msg_id, user_id, text, photo, interval, last_sent)"
  have w1: "w1 = db_next w" and ads: "active_ads w = pre @ ?ad # post"
    using select_active_ads_Inr [OF sel] by simp_all
  have "?ad \<in> set (active_ads w)" by (simp add: ads)
  then have row: "\<exists>m \<in> set (messages w). m_active m = 1 \<and>
            (m_id m, m_user_id m, m_text m, m_photo_path m, m_interval_sec m, m_last_sent m) = ?ad"
    by (rule active_ads_row)
  have same: "users w2 = users w" "groups w2 = groups w" "accounts w2 = accounts w"
    using for_ads_frame [of E w1 pre] pre by (simp_all add: w1)
  have adm: "admitted E w2 ?ad"
  proof (rule ccontr)
    assume "\<not> admitted E w2 ?ad"
    then have "trace (snd (process_ad E w2 ?ad)) = trace w2"
      using process_ad_not_admitted by blast
    then show False using pass by (simp add: events_since_def)
  qed
  then have "sub_active E w2 user_id" "user_groups w2 user_id \<noteq> []"
    "truthy (first_session_string w2 user_id)"
    by (simp_all add: admitted_def)
  then show ?thesis
    using row sub_active_row [of E w2 user_id] user_groups_row [of w2 user_id]
      first_session_string_row [of w2 user_id]
    by (simp add: same)
qed

theorem pass_only_if_eligible_witness:
  "events_since demo_world
     (snd (process_ad demo_env demo_world (1, 1, Some ''Hello'', None, 60, None))) \<noteq> [] \<and>
   (\<exists>m \<in> set (messages demo_world). m_active m = 1 \<and>
      (m_id m, m_user_id m, m_text m, m_photo_path m, m_interval_sec m, m_last_sent m) =
      (1, 1, Some ''Hello'', None, 60, None)) \<and>
   (\<exists>row s d. find (\<lambda>r. u_user_id r = 1) (users demo_world) = Some row \<and>
      u_paid_until row = Some s \<and> fromisoformat demo_env s = Some d \<and> utcnow demo_world < d) \<and>
   (\<exists>g \<in> set (groups demo_world). g_user_id g = 1 \<and> g_is_active g = 1) \<and>
   (\<exists>a \<in> set (accounts demo_world). a_user_id a = 1 \<and> a_is_active a = 1 \<and>
      truthy (a_session_string a))"
proof -
  have sel: "select_active_ads demo_world =
               (Inr ([] @ (1, 1, Some ''Hello'', None, 60, None) #
                       [(2, 2, Some ''Sale'', None, 60, None)]), demo_world)"
    by code_simp
  have pre: "for_ads demo_env demo_world [] = (Inr (), demo_world)" by simp
  have pass: "events_since demo_world
     (snd (process_ad demo_env demo_world (1, 1, Some ''Hello'', None, 60, None))) \<noteq> []"
    by code_simp
  show ?thesis
    using pass_only_if_eligible [OF sel pre pass] pass by simp
qed

subsection \<open>A user who never paid\<close>

text \<open>
  C10. \<^verbatim>\<open>ensure_user\<close> on a user id with no row creates the row with \<^verbatim>\<open>paid_until\<close> the
  clock reading of the creation, printed by \<^verbatim>\<open>isoformat\<close>. As long as that print parses back
  to the same time, the user's row is the one that was created, and the clock is not behind
  the creation, the subscription check is false for that user, \<^verbatim>\<open>has_active_sub\<close> never
  returns true, and the loop body run on a job of that user makes no request and writes no
  job.
\<close>

theorem fresh_user_has_no_subscription:
  assumes fresh: "find (\<lambda>r. u_user_id r = user_id) (users w) = None"
    and ok: "\<not> db_fails w"
    and iso: "fromisoformat E (isoformat E (utcnow w)) = Some (utcnow w)"
    and same: "find (\<lambda>r. u_user_id r = user_id) (users w') =
               find (\<lambda>r. u_user_id r = user_id) (users (snd (ensure_user E w user_id)))"
    and later: "utcnow w \<le> utcnow w'"
  shows "(\<exists>row. find (\<lambda>r. u_user_id r = user_id) (users (snd (ensure_user E w user_id))) =
                  Some row \<and> u_paid_until row = Some (isoformat E (utcnow w))) \<and>
         \<not> sub_active E w' user_id \<and>
         fst (has_active_sub E w' user_id) \<noteq> Inr True \<and>
         \<not> admitted E w' (msg_id, user_id, text, photo, interval, last_sent) \<and>
         events_since w'
           (snd (process_ad E w' (msg_id, user_id, text, photo, interval, last_sent))) = [] \<and>
         messages (snd (process_ad E w' (msg_id, user_id, text, photo, interval, last_sent))) =
           messages w'"
proof -
  let ?row = "\<lparr>u_user_id = user_id, u_is_admin = (if user_id = ADMIN_ID E then 1 else 0),
               u_paid_until = Some (isoformat E (utcnow w)), u_balance = 0\<rparr>"
  have created: "find (\<lambda>r. u_user_id r = user_id) (users (snd (ensure_user E w user_id))) =
                   Some ?row"
    using fresh ok by (simp add: ensure_user_def find_app)
  then have row': "find (\<lambda>r. u_user_id r = user_id) (users w') = Some ?row"
    using same by simp
  have nsub: "\<not> sub_active E w' user_id"
    using row' iso later by (simp add: sub_active_def)
  then have nadm: "\<not> admitted E w' (msg_id, user_id, text, photo, interval, last_sent)"
    by (simp add: admitted_def)
  have "fst (has_active_sub E w' user_id) \<noteq> Inr True"
    using nsub by (simp add: has_active_sub_def)
  then show ?thesis
    using created nsub nadm process_ad_not_admitted [OF nadm]
    by (simp add: events_since_def)
qed

text \<open>
  A user created at 00:00:00 and looked at one minute later.
\<close>

theorem fresh_user_has_no_subscription_witness:
  "\<not> sub_active demo_env ((snd (ensure_user demo_env demo_world 7))\<lparr>clock := 60\<rparr>) 7 \<and>
   events_since ((snd (ensure_user demo_env demo_world 7))\<lparr>clock := 60\<rparr>)
     (snd (process_ad demo_env ((snd (ensure_user demo_env demo_world 7))\<lparr>clock := 60\<rparr>)
        (3, 7, Some ''Hi'', None, 60, None))) = []"
proof -
  let ?w' = "(snd (ensure_user demo_env demo_world 7))\<lparr>clock := 60\<rparr>"
  have fresh: "find (\<lambda>r. u_user_id r = 7) (users demo_world) = None" by code_simp
  have ok: "\<not> db_fails demo_world" by code_simp
  have iso: "fromisoformat demo_env (isoformat demo_env (utcnow demo_world)) =
               Some (utcnow demo_world)"
    by code_simp
  have same: "find (\<lambda>r. u_user_id r = 7) (users ?w') =
              find (\<lambda>r. u_user_id r = 7) (users (snd (ensure_user demo_env demo_world 7)))"
    by simp
  have later: "utcnow demo_world \<le> utcnow ?w'" by code_simp
  show ?thesis
    using fresh_user_has_no_subscription [OF fresh ok iso same later] by simp
qed

end
